theory Spec2Isabelle
  imports Main "HOL-Library.Word"
begin

section \<open>The user graph store of main.go\<close>

text \<open>
  The program keeps three package-level variables: the map \<open>users\<close> from user ID to
  \<open>User\<close>, the lock \<open>usersMutex\<close> and the counter \<open>nextUserID\<close>. Every handler
  takes the lock for its whole body, so handlers run one after the other; a handler is
  modelled as a function from the store before to the response and the store after.

  A Go slice is a view on a backing array, and both \<open>append\<close> calls of the program can
  write into that array in place. No two users ever share a backing array (a record is
  decoded afresh on creation and is written back to the key it was read from), and the
  slice that the delete cascade ranges over belongs to the user already removed from the
  map, so the friend lists are modelled as values of type \<open>string list\<close>.
\<close>

subsection \<open>Data\<close>

record User =
  Name :: string
  Age :: int
  Friends :: "string list"

text \<open>
  \<open>nextUserID\<close> is a Go \<open>int\<close>: 64 bits wide on 64-bit targets, two's complement,
  and \<open>++\<close> wraps around. It is modelled as a 64-bit word read as a signed number.
\<close>

record store =
  users :: "string \<rightharpoonup> User"
  nextUserID :: "64 word"

definition initial :: store where
  "initial = \<lparr>users = Map.empty, nextUserID = 1\<rparr>"

text \<open>
  What a handler writes: the status code and the body. The texts of the program are
  constructors here, the formatted ones carrying their arguments:
  \<open>UserIDText id\<close> is \<^verbatim>\<open>"User ID: %s"\<close>, \<open>NowFriends a b\<close> is the confirmation of
  \<open>makeFriendsHandler\<close> with the two names, \<open>Deleted n\<close> that of \<open>deleteUserHandler\<close>.
  \<open>UsersJSON\<close> and \<open>FriendsJSON\<close> carry the value handed to the JSON encoder.
\<close>

datatype payload =
    InvalidRequestBody
  | UserIDText string
  | UserListEmpty
  | EncodeError
  | UsersJSON "string \<rightharpoonup> User"
  | UsersNotFound
  | NowFriends string string
  | UserNotFound
  | Deleted string
  | FriendsJSON "User list"
  | AgeUpdated

datatype response = Response (status: nat) (body: payload)

subsection \<open>strconv.Itoa\<close>

text \<open>
  Modelled from the spec: \<open>strconv.Itoa\<close> belongs to the Go standard library, not to this
  repository. It gives the decimal representation of its argument: a minus sign for a
  negative number, then the digits without leading zeros (the spec: "IDs are
  decimal-string-encoded positive integers").
\<close>

definition digit :: "nat \<Rightarrow> char" where
  "digit d = ''0123456789'' ! d"

function formatDec :: "nat \<Rightarrow> string" where
  "formatDec n = (if n < 10 then [digit n] else formatDec (n div 10) @ [digit (n mod 10)])"
  by pat_completeness auto
termination
  by (relation "measure id") auto

definition Itoa :: "int \<Rightarrow> string" where
  "Itoa i = (if i < 0 then CHR ''-'' # formatDec (nat (- i)) else formatDec (nat i))"

subsection \<open>The handlers\<close>

definition generateUserID :: "store \<Rightarrow> string \<times> store" where
  "generateUserID s = (Itoa (sint (nextUserID s)), s\<lparr>nextUserID := nextUserID s + 1\<rparr>)"

text \<open>
  The request body of a handler is an \<open>option\<close>: \<open>None\<close> when the JSON decoder returns
  an error. The flag \<open>encoded\<close> of the two reading handlers says whether the JSON encoder
  wrote its value without an error.
\<close>

definition createUserHandler :: "User option \<Rightarrow> store \<Rightarrow> response \<times> store" where
  "createUserHandler req s =
     (case req of
        None \<Rightarrow> (Response 400 InvalidRequestBody, s)
      | Some newUser \<Rightarrow>
          (let (userID, s1) = generateUserID s
           in (Response 201 (UserIDText userID),
               s1\<lparr>users := (users s1)(userID \<mapsto> newUser)\<rparr>)))"

definition getAllUsersHandler :: "bool \<Rightarrow> store \<Rightarrow> response \<times> store" where
  "getAllUsersHandler encoded s =
     (if users s = Map.empty then (Response 404 UserListEmpty, s)
      else if encoded then (Response 200 (UsersJSON (users s)), s)
      else (Response 500 EncodeError, s))"

definition makeFriendsHandler :: "(string \<times> string) option \<Rightarrow> store \<Rightarrow> response \<times> store" where
  "makeFriendsHandler req s =
     (case req of
        None \<Rightarrow> (Response 400 InvalidRequestBody, s)
      | Some (sourceID, targetID) \<Rightarrow>
          (case (users s sourceID, users s targetID) of
             (Some sourceUser, Some targetUser) \<Rightarrow>
               (let sourceUser1 = sourceUser\<lparr>Friends := Friends sourceUser @ [targetID]\<rparr>;
                    targetUser1 = targetUser\<lparr>Friends := Friends targetUser @ [sourceID]\<rparr>
                in (Response 200 (NowFriends (Name sourceUser1) (Name targetUser1)),
                    s\<lparr>users := ((users s)(sourceID \<mapsto> sourceUser1))(targetID \<mapsto> targetUser1)\<rparr>))
           | _ \<Rightarrow> (Response 400 UsersNotFound, s)))"

text \<open>
  The inner loop of \<open>deleteUserHandler\<close>: it walks the friend list by index, and at the
  first index holding \<open>targetID\<close> it joins the part before that index with the part after
  it and stops. \<open>removeTarget targetID fs i\<close> is the loop from index \<open>i\<close> on.
\<close>

function removeTarget :: "string \<Rightarrow> string list \<Rightarrow> nat \<Rightarrow> string list" where
  "removeTarget targetID fs i =
     (if i < length fs
      then (if fs ! i = targetID then take i fs @ drop (i + 1) fs
            else removeTarget targetID fs (i + 1))
      else fs)"
  by pat_completeness auto
termination
  by (relation "measure (\<lambda>(targetID, fs, i). length fs - i)") auto

text \<open>
  The outer loop, over the friend list of the deleted user: a friend ID that is not in
  the map is skipped, any other has its record scanned once and written back.
\<close>

fun cascade :: "string \<Rightarrow> string list \<Rightarrow> (string \<rightharpoonup> User) \<Rightarrow> (string \<rightharpoonup> User)" where
  "cascade targetID [] us = us"
| "cascade targetID (friendID # rest) us =
     (case us friendID of
        None \<Rightarrow> cascade targetID rest us
      | Some friend \<Rightarrow>
          cascade targetID rest
            (us(friendID \<mapsto> friend\<lparr>Friends := removeTarget targetID (Friends friend) 0\<rparr>)))"

definition deleteUserHandler :: "string option \<Rightarrow> store \<Rightarrow> response \<times> store" where
  "deleteUserHandler req s =
     (case req of
        None \<Rightarrow> (Response 400 InvalidRequestBody, s)
      | Some targetID \<Rightarrow>
          (case users s targetID of
             None \<Rightarrow> (Response 400 UserNotFound, s)
           | Some targetUser \<Rightarrow>
               (Response 200 (Deleted (Name targetUser)),
                s\<lparr>users := cascade targetID (Friends targetUser)
                              ((users s)(targetID := None))\<rparr>)))"

text \<open>The loop of \<open>getUserFriendsHandler\<close>, with \<open>friendsDetails\<close> as accumulator.\<close>

fun friendsLoop :: "string list \<Rightarrow> (string \<rightharpoonup> User) \<Rightarrow> User list \<Rightarrow> User list" where
  "friendsLoop [] us friendsDetails = friendsDetails"
| "friendsLoop (friendID # rest) us friendsDetails =
     (case us friendID of
        Some friend \<Rightarrow> friendsLoop rest us (friendsDetails @ [friend])
      | None \<Rightarrow> friendsLoop rest us friendsDetails)"

definition getUserFriendsHandler :: "string \<Rightarrow> bool \<Rightarrow> store \<Rightarrow> response \<times> store" where
  "getUserFriendsHandler userID encoded s =
     (case users s userID of
        None \<Rightarrow> (Response 400 UserNotFound, s)
      | Some user \<Rightarrow>
          (let friendsDetails = friendsLoop (Friends user) (users s) []
           in if encoded then (Response 200 (FriendsJSON friendsDetails), s)
              else (Response 500 EncodeError, s)))"

definition updateUserAgeHandler :: "string \<Rightarrow> int option \<Rightarrow> store \<Rightarrow> response \<times> store" where
  "updateUserAgeHandler userID req s =
     (case req of
        None \<Rightarrow> (Response 400 InvalidRequestBody, s)
      | Some newAge \<Rightarrow>
          (case users s userID of
             None \<Rightarrow> (Response 400 UserNotFound, s)
           | Some user \<Rightarrow>
               (Response 200 AgeUpdated, s\<lparr>users := (users s)(userID \<mapsto> user\<lparr>Age := newAge\<rparr>)\<rparr>)))"

subsection \<open>The router and a run of the process\<close>

datatype request =
    PostCreate "User option"
  | PostMakeFriends "(string \<times> string) option"
  | DeleteUser "string option"
  | GetFriends string bool
  | GetUsers bool
  | PutUserAge string "int option"

fun route :: "request \<Rightarrow> store \<Rightarrow> response \<times> store" where
  "route (PostCreate req) s = createUserHandler req s"
| "route (PostMakeFriends req) s = makeFriendsHandler req s"
| "route (DeleteUser req) s = deleteUserHandler req s"
| "route (GetFriends userID encoded) s = getUserFriendsHandler userID encoded s"
| "route (GetUsers encoded) s = getAllUsersHandler encoded s"
| "route (PutUserAge userID req) s = updateUserAgeHandler userID req s"

text \<open>
  A run of the process serves a sequence of requests from a store, in the order in
  which the handlers get the lock, and collects the responses.
\<close>

fun serve :: "request list \<Rightarrow> store \<Rightarrow> response list \<times> store" where
  "serve [] s = ([], s)"
| "serve (r # rs) s =
     (let (resp, s1) = route r s; (resps, s2) = serve rs s1 in (resp # resps, s2))"

text \<open>The requests that reach \<open>generateUserID\<close>: a create with a body that decodes.\<close>

fun creates :: "request \<Rightarrow> bool" where
  "creates (PostCreate (Some newUser)) = True"
| "creates _ = False"

text \<open>The user IDs that the responses of a run announce, in order.\<close>

fun createdID :: "response \<Rightarrow> string option" where
  "createdID (Response code (UserIDText userID)) = Some userID"
| "createdID _ = None"

definition createdIDs :: "response list \<Rightarrow> string list" where
  "createdIDs resps = List.map_filter createdID resps"

text \<open>
  Bidirectional consistency of the friendships of a store. \<open>listedBack s a\<close>: every ID
  in the friend list of user \<open>a\<close> is the ID of a user whose friend list holds \<open>a\<close>
  (it holds when \<open>a\<close> is no user). The store is symmetric when that is so for every ID.
\<close>

definition listedBack :: "store \<Rightarrow> string \<Rightarrow> bool" where
  "listedBack s a =
     (case users s a of
        None \<Rightarrow> True
      | Some ua \<Rightarrow>
          list_all (\<lambda>b. case users s b of None \<Rightarrow> False | Some ub \<Rightarrow> a \<in> set (Friends ub))
            (Friends ua))"

definition symmetric :: "store \<Rightarrow> bool" where
  "symmetric s \<longleftrightarrow> (\<forall>a. listedBack s a)"

subsection \<open>Example stores\<close>

text \<open>
  The scenario of the specification: two users without friends are created in a fresh
  process and get the IDs 1 and 2. In \<open>oneSided\<close> the first user is created with a friend
  list that names the second.
\<close>

definition alice :: User where
  "alice = \<lparr>Name = ''Alice'', Age = 30, Friends = []\<rparr>"

definition bob :: User where
  "bob = \<lparr>Name = ''Bob'', Age = 25, Friends = []\<rparr>"

definition carol :: User where
  "carol = \<lparr>Name = ''Carol'', Age = 41, Friends = [''2'']\<rparr>"

definition twoUsers :: store where
  "twoUsers = snd (serve [PostCreate (Some alice), PostCreate (Some bob)] initial)"

definition oneSided :: store where
  "oneSided = snd (serve [PostCreate (Some carol), PostCreate (Some bob)] initial)"

text \<open>
  The stores that follow from these: \<open>linked\<close> after users 1 and 2 of \<open>twoUsers\<close> are
  made friends, \<open>relinked\<close> after users 1 and 2 of \<open>oneSided\<close> are made friends (user 1
  then lists user 2 twice), \<open>stale\<close> after user 2 of \<open>oneSided\<close> is deleted.
\<close>

definition linked :: store where
  "linked = snd (makeFriendsHandler (Some (''1'', ''2'')) twoUsers)"

definition relinked :: store where
  "relinked = snd (makeFriendsHandler (Some (''1'', ''2'')) oneSided)"

definition stale :: store where
  "stale = snd (deleteUserHandler (Some ''2'') oneSided)"

text \<open>
  A run that keeps the map small: \<open>churn n\<close> creates a user and deletes it again,
  \<open>n\<close> times. The ID to delete is the one the counter gives to that create.
\<close>

definition churn :: "nat \<Rightarrow> request list" where
  "churn n =
     concat (map (\<lambda>j. [PostCreate (Some alice),
                        DeleteUser (Some (Itoa (sint (word_of_nat (Suc j) :: 64 word))))])
       [0..<n])"

section \<open>Properties of the loops\<close>

declare formatDec.simps [simp del] removeTarget.simps [simp del]

subsection \<open>The scan of one friend list\<close>

text \<open>
  From index \<open>i\<close> on, the scan keeps the first \<open>i\<close> entries and drops the first
  occurrence of the target among the others.
\<close>

lemma removeTarget_from:
  "i \<le> length fs \<Longrightarrow> removeTarget t fs i = take i fs @ remove1 t (drop i fs)"
proof (induction t fs i rule: removeTarget.induct)
  case (1 t fs i)
  show ?case
  proof (cases "i < length fs")
    case True
    then have d: "drop i fs = fs ! i # drop (Suc i) fs"
      by (simp add: Cons_nth_drop_Suc)
    show ?thesis
    proof (cases "fs ! i = t")
      case hit: True
      have "removeTarget t fs i = take i fs @ drop (i + 1) fs"
        using True hit by (subst removeTarget.simps) simp
      then show ?thesis
        using hit by (simp add: d)
    next
      case miss: False
      have "removeTarget t fs i = removeTarget t fs (i + 1)"
        using True miss by (subst removeTarget.simps) simp
      also have "\<dots> = take (i + 1) fs @ remove1 t (drop (i + 1) fs)"
        using "1.IH" [OF True miss] True by simp
      also have "\<dots> = take i fs @ remove1 t (drop i fs)"
        using True miss by (simp add: d take_Suc_conv_app_nth)
      finally show ?thesis .
    qed
  next
    case False
    with "1.prems" have "i = length fs" by simp
    then show ?thesis
      by (subst removeTarget.simps) simp
  qed
qed

lemma removeTarget_remove1: "removeTarget t fs 0 = remove1 t fs"
  by (simp add: removeTarget_from)

lemma count_remove1: "count_list (remove1 t xs) t = count_list xs t - 1"
  by (induction xs) auto

lemma count_remove1_pow: "count_list ((remove1 t ^^ n) xs) t = count_list xs t - n"
  by (induction n) (auto simp: count_remove1)

subsection \<open>The cascade\<close>

text \<open>
  The cascade changes nothing but friend lists, and the list of a user \<open>F\<close> is scanned
  once for every occurrence of \<open>F\<close> in the list the cascade ranges over.
\<close>

lemma cascade_lookup:
  "cascade t fl us F =
     (case us F of None \<Rightarrow> None
      | Some f \<Rightarrow> Some (f\<lparr>Friends := (remove1 t ^^ count_list fl F) (Friends f)\<rparr>))"
proof (induction fl arbitrary: us)
  case Nil
  show ?case by (cases "us F") simp_all
next
  case (Cons a fl)
  show ?case
  proof (cases "us a")
    case None
    then show ?thesis
      by (cases "a = F"; cases "us F") (simp_all add: Cons)
  next
    case (Some g)
    show ?thesis
    proof (cases "a = F")
      case True
      with Some show ?thesis
        by (simp add: Cons removeTarget_remove1 funpow_swap1)
    next
      case False
      with Some show ?thesis
        by (cases "us F") (simp_all add: Cons)
    qed
  qed
qed

subsection \<open>The loop of getUserFriendsHandler\<close>

lemma friendsLoop_acc: "friendsLoop fs us acc = acc @ List.map_filter us fs"
  by (induction fs arbitrary: acc) (auto simp: List.map_filter_simps split: option.splits)

subsection \<open>Decimal representations\<close>

lemma digit_inj: "d < 10 \<Longrightarrow> e < 10 \<Longrightarrow> digit d = digit e \<Longrightarrow> d = e"
proof -
  assume "d < 10" "e < 10" and eq: "digit d = digit e"
  have below: "\<And>k::nat. k < 10 \<Longrightarrow> k \<in> {0, 1, 2, 3, 4, 5, 6, 7, 8, 9}"
    by auto
  from below [OF \<open>d < 10\<close>] below [OF \<open>e < 10\<close>] eq show "d = e"
    by (auto simp: digit_def)
qed

lemma formatDec_not_Nil: "formatDec n \<noteq> []"
  by (subst formatDec.simps) simp

lemma formatDec_inj: "formatDec m = formatDec n \<Longrightarrow> m = n"
proof (induction m arbitrary: n rule: formatDec.induct)
  case (1 m)
  show ?case
  proof (cases "m < 10")
    case small: True
    then have m: "formatDec m = [digit m]"
      by (subst formatDec.simps) simp
    show ?thesis
    proof (cases "n < 10")
      case True
      then have "formatDec n = [digit n]"
        by (subst formatDec.simps) simp
      with m "1.prems" small True show ?thesis
        by (simp add: digit_inj)
    next
      case False
      then have "formatDec n = formatDec (n div 10) @ [digit (n mod 10)]"
        by (subst formatDec.simps) simp
      with m "1.prems" formatDec_not_Nil [of "n div 10"] show ?thesis
        by auto
    qed
  next
    case big: False
    then have m: "formatDec m = formatDec (m div 10) @ [digit (m mod 10)]"
      by (subst formatDec.simps) simp
    show ?thesis
    proof (cases "n < 10")
      case True
      then have "formatDec n = [digit n]"
        by (subst formatDec.simps) simp
      with m "1.prems" formatDec_not_Nil [of "m div 10"] show ?thesis
        by auto
    next
      case False
      then have "formatDec n = formatDec (n div 10) @ [digit (n mod 10)]"
        by (subst formatDec.simps) simp
      with m "1.prems" have a: "formatDec (m div 10) = formatDec (n div 10)"
        and b: "digit (m mod 10) = digit (n mod 10)"
        by simp_all
      from "1.IH" [OF big a] have "m div 10 = n div 10" .
      moreover from b have "m mod 10 = n mod 10"
        by (simp add: digit_inj)
      ultimately show ?thesis
        by (metis div_mult_mod_eq)
    qed
  qed
qed

lemma formatDec_digits: "set (formatDec n) \<subseteq> set ''0123456789''"
proof (induction n rule: formatDec.induct)
  case (1 n)
  have d: "digit k \<in> set ''0123456789''" if "k < 10" for k
  proof -
    from that have "k \<in> {0, 1, 2, 3, 4, 5, 6, 7, 8, 9}" by auto
    then show ?thesis by (auto simp: digit_def)
  qed
  show ?case
  proof (cases "n < 10")
    case True
    then have "formatDec n = [digit n]"
      by (subst formatDec.simps) simp
    with d [OF True] show ?thesis by simp
  next
    case False
    then have "formatDec n = formatDec (n div 10) @ [digit (n mod 10)]"
      by (subst formatDec.simps) simp
    moreover have "digit (n mod 10) \<in> set ''0123456789''"
      by (rule d) simp
    ultimately show ?thesis
      using "1.IH" [OF False] by simp
  qed
qed

lemma formatDec_no_sign: "formatDec n \<noteq> CHR ''-'' # cs"
proof
  assume "formatDec n = CHR ''-'' # cs"
  then have "CHR ''-'' \<in> set (formatDec n)" by simp
  with formatDec_digits [of n] show False by auto
qed

text \<open>Different numbers have different representations, whatever their signs.\<close>

lemma Itoa_inj: "Itoa i = Itoa j \<Longrightarrow> i = j"
proof (cases "i < 0"; cases "j < 0")
  assume "Itoa i = Itoa j" "i < 0" "j < 0"
  then have "nat (- i) = nat (- j)"
    by (simp add: Itoa_def formatDec_inj)
  with \<open>i < 0\<close> \<open>j < 0\<close> show ?thesis by simp
next
  assume "Itoa i = Itoa j" "i < 0" "\<not> j < 0"
  then show ?thesis
    using formatDec_no_sign [of "nat j" "formatDec (nat (- i))"] by (simp add: Itoa_def)
next
  assume "Itoa i = Itoa j" "\<not> i < 0" "j < 0"
  then show ?thesis
    using formatDec_no_sign [of "nat i" "formatDec (nat (- j))"] by (simp add: Itoa_def)
next
  assume "Itoa i = Itoa j" "\<not> i < 0" "\<not> j < 0"
  then have "nat i = nat j"
    by (simp add: Itoa_def formatDec_inj)
  with \<open>\<not> i < 0\<close> \<open>\<not> j < 0\<close> show ?thesis by simp
qed

lemma Itoa_small: "Itoa 1 = ''1''" "Itoa 2 = ''2''" "Itoa 3 = ''3''"
  by (simp_all add: Itoa_def formatDec.simps digit_def)

lemma sint_counter: "n < 2 ^ 63 \<Longrightarrow> sint (word_of_nat n :: 64 word) = int n"
  by (simp add: signed_of_nat signed_take_bit_int_eq_self)

subsection \<open>The counter along a run\<close>

lemma route_create:
  "route (PostCreate (Some u)) s =
     (Response 201 (UserIDText (Itoa (sint (nextUserID s)))),
      s\<lparr>users := (users s)(Itoa (sint (nextUserID s)) \<mapsto> u), nextUserID := nextUserID s + 1\<rparr>)"
  by (simp add: createUserHandler_def generateUserID_def)

lemma route_other:
  "\<not> creates r \<Longrightarrow>
     createdID (fst (route r s)) = None \<and> nextUserID (snd (route r s)) = nextUserID s"
proof (cases r)
  case (PostCreate req)
  assume "\<not> creates r"
  with PostCreate have "req = None" by (cases req) simp_all
  with PostCreate show ?thesis by (simp add: createUserHandler_def)
next
  case (PostMakeFriends req)
  then show ?thesis
    by (simp add: makeFriendsHandler_def Let_def split: option.splits prod.splits)
next
  case (DeleteUser req)
  then show ?thesis
    by (simp add: deleteUserHandler_def split: option.splits)
next
  case (GetFriends userID encoded)
  then show ?thesis
    by (simp add: getUserFriendsHandler_def Let_def split: option.splits)
next
  case (GetUsers encoded)
  then show ?thesis
    by (simp add: getAllUsersHandler_def)
next
  case (PutUserAge userID req)
  then show ?thesis
    by (simp add: updateUserAgeHandler_def split: option.splits)
qed

lemma createdIDs_Nil: "createdIDs [] = []"
  by (simp add: createdIDs_def List.map_filter_simps)

lemma createdIDs_Cons:
  "createdIDs (r # rs) =
     (case createdID r of None \<Rightarrow> createdIDs rs | Some i \<Rightarrow> i # createdIDs rs)"
  by (cases "createdID r") (simp_all add: createdIDs_def List.map_filter_simps)

text \<open>
  A run announces one ID for each create that decodes, and the \<open>j\<close>-th of them (from 0)
  is the counter of the starting store advanced \<open>j\<close> times, with wrap-around.
\<close>

lemma serve_counter:
  "length (createdIDs (fst (serve rs s))) = length (filter creates rs) \<and>
   nextUserID (snd (serve rs s)) = nextUserID s + word_of_nat (length (filter creates rs)) \<and>
   (\<forall>j < length (filter creates rs).
      createdIDs (fst (serve rs s)) ! j = Itoa (sint (nextUserID s + word_of_nat j)))"
proof (induction rs arbitrary: s)
  case Nil
  show ?case by (simp add: createdIDs_Nil)
next
  case (Cons r rs)
  obtain resp s1 where r: "route r s = (resp, s1)" by (cases "route r s")
  obtain resps s2 where rs: "serve rs s1 = (resps, s2)" by (cases "serve rs s1")
  from r rs have step: "serve (r # rs) s = (resp # resps, s2)" by simp
  note IH = Cons.IH [of s1, unfolded rs fst_conv snd_conv]
  show ?case
  proof (cases "creates r")
    case False
    from route_other [OF False, of s] r
    have "createdID resp = None" "nextUserID s1 = nextUserID s" by simp_all
    with IH False show ?thesis
      unfolding step fst_conv snd_conv by (simp add: createdIDs_Cons)
  next
    case True
    then obtain u where "r = PostCreate (Some u)"
      by (cases r rule: creates.cases) simp_all
    with r route_create [of u s]
    have c: "createdID resp = Some (Itoa (sint (nextUserID s)))"
      and n: "nextUserID s1 = nextUserID s + 1"
      by auto
    have "createdIDs (resp # resps) ! j = Itoa (sint (nextUserID s + word_of_nat j))"
      if "j < Suc (length (filter creates rs))" for j
    proof (cases j)
      case 0
      with c show ?thesis by (simp add: createdIDs_Cons)
    next
      case (Suc k)
      with that IH n show ?thesis
        by (simp add: createdIDs_Cons c add.assoc)
    qed
    with IH True n c show ?thesis
      unfolding step fst_conv snd_conv by (simp add: createdIDs_Cons add.assoc)
  qed
qed

subsection \<open>The example stores\<close>

lemma twoUsers_eq: "twoUsers = \<lparr>users = [''1'' \<mapsto> alice, ''2'' \<mapsto> bob], nextUserID = 3\<rparr>"
  by (simp add: twoUsers_def initial_def createUserHandler_def generateUserID_def Itoa_small)

lemma oneSided_eq: "oneSided = \<lparr>users = [''1'' \<mapsto> carol, ''2'' \<mapsto> bob], nextUserID = 3\<rparr>"
  by (simp add: oneSided_def initial_def createUserHandler_def generateUserID_def Itoa_small)

lemma linked_eq:
  "linked = \<lparr>users = [''1'' \<mapsto> alice\<lparr>Friends := [''2'']\<rparr>, ''2'' \<mapsto> bob\<lparr>Friends := [''1'']\<rparr>],
             nextUserID = 3\<rparr>"
  by (simp add: linked_def twoUsers_eq makeFriendsHandler_def alice_def bob_def)

lemma relinked_eq:
  "relinked = \<lparr>users = [''1'' \<mapsto> carol\<lparr>Friends := [''2'', ''2'']\<rparr>, ''2'' \<mapsto> bob\<lparr>Friends := [''1'']\<rparr>],
             nextUserID = 3\<rparr>"
  by (simp add: relinked_def oneSided_eq makeFriendsHandler_def carol_def bob_def)

lemma stale_eq: "stale = \<lparr>users = [''1'' \<mapsto> carol], nextUserID = 3\<rparr>"
  by (simp add: stale_def oneSided_eq deleteUserHandler_def bob_def)

subsection \<open>The handlers on a store that holds the users\<close>

lemma deleteUser_lookup:
  assumes "users s X = Some x"
  shows "deleteUserHandler (Some X) s =
           (Response 200 (Deleted (Name x)),
            s\<lparr>users := cascade X (Friends x) ((users s)(X := None))\<rparr>)"
  using assms by (simp add: deleteUserHandler_def)

lemma makeFriends_step:
  assumes "users s A = Some ua" and "users s B = Some ub"
  shows "\<exists>msg s1 ua1 ub1.
           makeFriendsHandler (Some (A, B)) s = (Response 200 msg, s1) \<and>
           users s1 A = Some ua1 \<and> Friends ua1 = Friends ua @ [B] \<and>
           users s1 B = Some ub1 \<and> Friends ub1 = Friends ub @ [A]"
  using assms by (cases "A = B") (simp_all add: makeFriendsHandler_def Let_def)

lemma funpow_removeTarget:
  "((\<lambda>fs. removeTarget t fs 0) ^^ n) = (remove1 t ^^ n)"
  by (simp add: removeTarget_remove1 [abs_def])

lemma counter_from_one:
  assumes "Suc j < 2 ^ 63"
  shows "sint (1 + word_of_nat j :: 64 word) = int (Suc j)"
proof -
  have "(1 + word_of_nat j :: 64 word) = word_of_nat (Suc j)"
    by simp
  with sint_counter [OF assms] show ?thesis
    by (simp only:)
qed

text \<open>
  The counter takes \<open>2^64\<close> values before it comes back to one it had: advancing it
  by two different numbers of steps below \<open>2^64\<close> gives two different IDs.
\<close>

lemma counter_inj:
  assumes "j < 2 ^ 64" and "k < 2 ^ 64"
    and "Itoa (sint (c + word_of_nat j :: 64 word)) = Itoa (sint (c + word_of_nat k :: 64 word))"
  shows "j = k"
proof -
  from assms(3) have "sint (c + word_of_nat j) = sint (c + word_of_nat k)"
    by (rule Itoa_inj)
  then have "c + word_of_nat j = c + word_of_nat k"
    by (rule signed_word_eqI)
  then have "(word_of_nat j :: 64 word) = word_of_nat k"
    by simp
  then have "take_bit 64 j = take_bit 64 k"
    by (simp add: word_of_nat_eq_iff)
  with assms(1,2) show ?thesis
    by (simp add: take_bit_nat_eq_self)
qed

subsection \<open>Runs of creates and deletes\<close>

lemma churn_Suc:
  "churn (Suc n) =
     churn n @ [PostCreate (Some alice),
                DeleteUser (Some (Itoa (sint (word_of_nat (Suc n) :: 64 word))))]"
  by (simp add: churn_def)

lemma creates_churn: "length (filter creates (churn n)) = n"
proof (induction n)
  case 0
  show ?case by (simp add: churn_def)
next
  case (Suc n)
  then show ?case by (simp add: churn_Suc)
qed

lemma serve_append:
  "serve (xs @ ys) s =
     (fst (serve xs s) @ fst (serve ys (snd (serve xs s))), snd (serve ys (snd (serve xs s))))"
  by (induction xs arbitrary: s) (simp_all add: split_beta Let_def)

text \<open>Each delete of \<open>churn\<close> removes the user just created: the map is empty again.\<close>

lemma serve_churn:
  "snd (serve (churn n) initial) = \<lparr>users = Map.empty, nextUserID = 1 + word_of_nat n\<rparr>"
proof (induction n)
  case 0
  show ?case by (simp add: churn_def initial_def)
next
  case (Suc n)
  have "(1 + word_of_nat n :: 64 word) = word_of_nat (Suc n)"
    by simp
  then show ?case
    by (simp add: churn_Suc serve_append Suc createUserHandler_def generateUserID_def
        deleteUserHandler_def alice_def add.commute)
qed

section \<open>The claims\<close>

text \<open>
  C1. When \<open>A\<close> and \<open>B\<close> are both in the store, \<open>makeFriendsHandler\<close> answers the link
  of \<open>A\<close> and \<open>B\<close> with status 200, and in the store after the call \<open>B\<close> is in the
  friend list of \<open>A\<close> and \<open>A\<close> is in the friend list of \<open>B\<close>. The two IDs need not be
  distinct.
\<close>

theorem makeFriends_both_listed:
  assumes "users s A = Some ua" and "users s B = Some ub"
  shows "\<exists>msg s1 ua1 ub1.
           makeFriendsHandler (Some (A, B)) s = (Response 200 msg, s1) \<and>
           users s1 A = Some ua1 \<and> B \<in> set (Friends ua1) \<and>
           users s1 B = Some ub1 \<and> A \<in> set (Friends ub1)"
  using assms by (cases "A = B") (simp_all add: makeFriendsHandler_def Let_def)

theorem makeFriends_both_listed_witness:
  "\<exists>msg s1 ua1 ub1.
     makeFriendsHandler (Some (''1'', ''2'')) twoUsers = (Response 200 msg, s1) \<and>
     users s1 ''1'' = Some ua1 \<and> ''2'' \<in> set (Friends ua1) \<and>
     users s1 ''2'' = Some ub1 \<and> ''1'' \<in> set (Friends ub1)"
  using makeFriends_both_listed [of twoUsers "''1''" alice "''2''" bob]
  by (simp add: twoUsers_eq)

text \<open>
  C2, as the program has it. Deleting an existing user \<open>X\<close> answers with status 200 and
  removes \<open>X\<close> from the map. Any other user \<open>F\<close> stays, and its friend list loses one
  occurrence of \<open>X\<close> for each occurrence of \<open>F\<close> in the friend list of \<open>X\<close> (as far as
  there are any): \<open>X\<close> is absent from the list of \<open>F\<close> afterwards exactly when \<open>F\<close> listed
  \<open>X\<close> at most as often as \<open>X\<close> listed \<open>F\<close>.
\<close>

theorem deleteUser_absent_by_multiplicity:
  assumes "users s X = Some x"
  shows "\<exists>s1. deleteUserHandler (Some X) s = (Response 200 (Deleted (Name x)), s1) \<and>
           users s1 X = None \<and>
           (\<forall>F f. F \<noteq> X \<and> users s F = Some f \<longrightarrow>
              (\<exists>f1. users s1 F = Some f1 \<and>
                 count_list (Friends f1) X = count_list (Friends f) X - count_list (Friends x) F \<and>
                 (X \<notin> set (Friends f1) \<longleftrightarrow>
                    count_list (Friends f) X \<le> count_list (Friends x) F)))"
proof -
  let ?s1 = "s\<lparr>users := cascade X (Friends x) ((users s)(X := None))\<rparr>"
  have gone: "users ?s1 X = None"
    by (simp add: cascade_lookup)
  have rest: "\<exists>f1. users ?s1 F = Some f1 \<and>
      count_list (Friends f1) X = count_list (Friends f) X - count_list (Friends x) F \<and>
      (X \<notin> set (Friends f1) \<longleftrightarrow> count_list (Friends f) X \<le> count_list (Friends x) F)"
    if "F \<noteq> X" "users s F = Some f" for F f
    using that by (simp add: cascade_lookup count_remove1_pow flip: count_list_0_iff)
  from gone rest deleteUser_lookup [OF assms] show ?thesis
    by blast
qed

text \<open>
  The scenario of the specification: users 1 and 2 are friends, user 2 is deleted, and
  the friend list of user 1 no longer holds 2.
\<close>

theorem deleteUser_absent_by_multiplicity_witness:
  "\<exists>s1 f1. deleteUserHandler (Some ''2'') linked = (Response 200 (Deleted ''Bob''), s1) \<and>
     users s1 ''2'' = None \<and> users s1 ''1'' = Some f1 \<and> ''2'' \<notin> set (Friends f1)"
proof -
  let ?b = "bob\<lparr>Friends := [''1'']\<rparr>" and ?a = "alice\<lparr>Friends := [''2'']\<rparr>"
  have b: "users linked ''2'' = Some ?b" and a: "users linked ''1'' = Some ?a"
    by (simp_all add: linked_eq)
  from deleteUser_absent_by_multiplicity [OF b] obtain s1 where
    d: "deleteUserHandler (Some ''2'') linked = (Response 200 (Deleted (Name ?b)), s1)"
    and g: "users s1 ''2'' = None"
    and r: "\<forall>F f. F \<noteq> ''2'' \<and> users linked F = Some f \<longrightarrow>
        (\<exists>f1. users s1 F = Some f1 \<and>
           count_list (Friends f1) ''2'' = count_list (Friends f) ''2'' - count_list (Friends ?b) F \<and>
           (''2'' \<notin> set (Friends f1) \<longleftrightarrow>
              count_list (Friends f) ''2'' \<le> count_list (Friends ?b) F))"
    by blast
  have "''1'' \<noteq> ''2'' \<and> users linked ''1'' = Some ?a"
    using a by simp
  from r [rule_format, OF this] obtain f1 where
    f1: "users s1 ''1'' = Some f1"
    and iff: "''2'' \<notin> set (Friends f1) \<longleftrightarrow>
       count_list (Friends ?a) ''2'' \<le> count_list (Friends ?b) ''1''"
    by blast
  from iff have "''2'' \<notin> set (Friends f1)"
    by simp
  moreover from d have "deleteUserHandler (Some ''2'') linked = (Response 200 (Deleted ''Bob''), s1)"
    by (simp add: bob_def)
  ultimately show ?thesis
    using g f1 by blast
qed

text \<open>
  C2 as it is stated fails. In \<open>oneSided\<close> user 1 was created with the friend list
  \<open>[2]\<close> and user 2 with an empty one. Deleting user 2 succeeds, its empty friend list
  gives the cascade nothing to visit, and user 1 lists 2 as before.
\<close>

theorem deleteUser_leaves_one_sided_entry:
  "map_option Friends (users oneSided ''1'') = Some [''2''] \<and>
   fst (deleteUserHandler (Some ''2'') oneSided) = Response 200 (Deleted ''Bob'') \<and>
   users (snd (deleteUserHandler (Some ''2'') oneSided)) ''2'' = None \<and>
   map_option Friends (users (snd (deleteUserHandler (Some ''2'') oneSided)) ''1'') = Some [''2'']"
  by (simp add: oneSided_eq deleteUserHandler_def carol_def bob_def)

text \<open>
  C3. When \<open>A\<close> and \<open>B\<close> are both in the store, linking them twice succeeds twice, and
  leaves the friend list of \<open>A\<close> with two more entries \<open>B\<close> at its end and the friend list
  of \<open>B\<close> with two more entries \<open>A\<close>; nothing is de-duplicated, and the second call
  changes the store again.
\<close>

theorem makeFriends_twice_appends_twice:
  assumes "users s A = Some ua" and "users s B = Some ub"
  shows "\<exists>m1 s1 m2 s2 ua2 ub2.
           makeFriendsHandler (Some (A, B)) s = (Response 200 m1, s1) \<and>
           makeFriendsHandler (Some (A, B)) s1 = (Response 200 m2, s2) \<and>
           users s2 A = Some ua2 \<and> Friends ua2 = Friends ua @ [B, B] \<and>
           users s2 B = Some ub2 \<and> Friends ub2 = Friends ub @ [A, A] \<and>
           count_list (Friends ua2) B = count_list (Friends ua) B + 2 \<and>
           count_list (Friends ub2) A = count_list (Friends ub) A + 2 \<and>
           s2 \<noteq> s1"
proof -
  from makeFriends_step [OF assms] obtain m1 s1 ua1 ub1 where
    first: "makeFriendsHandler (Some (A, B)) s = (Response 200 m1, s1)"
    and a1: "users s1 A = Some ua1" "Friends ua1 = Friends ua @ [B]"
    and b1: "users s1 B = Some ub1" "Friends ub1 = Friends ub @ [A]"
    by blast
  from makeFriends_step [OF a1(1) b1(1)] obtain m2 s2 ua2 ub2 where
    second: "makeFriendsHandler (Some (A, B)) s1 = (Response 200 m2, s2)"
    and a2: "users s2 A = Some ua2" "Friends ua2 = Friends ua1 @ [B]"
    and b2: "users s2 B = Some ub2" "Friends ub2 = Friends ub1 @ [A]"
    by blast
  have "s2 \<noteq> s1"
  proof
    assume "s2 = s1"
    with a1 a2 have "Friends ua1 @ [B] = Friends ua1" by simp
    then show False by simp
  qed
  moreover have "Friends ua2 = Friends ua @ [B, B]" "Friends ub2 = Friends ub @ [A, A]"
    using a1 a2 b1 b2 by simp_all
  ultimately show ?thesis
    using first second a2(1) b2(1) by force
qed

text \<open>
  From \<open>twoUsers\<close>, where nobody has friends: two links of 1 and 2 leave the lists
  \<open>[2, 2]\<close> and \<open>[1, 1]\<close>.
\<close>

theorem makeFriends_twice_appends_twice_witness:
  "\<exists>m1 s1 m2 s2 ua2 ub2.
     makeFriendsHandler (Some (''1'', ''2'')) twoUsers = (Response 200 m1, s1) \<and>
     makeFriendsHandler (Some (''1'', ''2'')) s1 = (Response 200 m2, s2) \<and>
     users s2 ''1'' = Some ua2 \<and> Friends ua2 = [''2'', ''2''] \<and>
     users s2 ''2'' = Some ub2 \<and> Friends ub2 = [''1'', ''1'']"
  using makeFriends_twice_appends_twice [of twoUsers "''1''" alice "''2''" bob]
  by (simp add: twoUsers_eq alice_def bob_def) blast

text \<open>
  C4. For a body that decodes to \<open>(sourceID, targetID)\<close>, \<open>makeFriendsHandler\<close> answers
  with status 400 exactly when one of the two IDs is not in the store, and then the store
  is the one before; with both IDs in the store the status is 200. Whatever the request,
  a response other than 200 comes with an unchanged store.
\<close>

theorem makeFriends_fails_iff_absent:
  "(status (fst (makeFriendsHandler (Some (sourceID, targetID)) s)) = 400 \<longleftrightarrow>
      users s sourceID = None \<or> users s targetID = None) \<and>
   (users s sourceID = None \<or> users s targetID = None \<longrightarrow>
      makeFriendsHandler (Some (sourceID, targetID)) s = (Response 400 UsersNotFound, s)) \<and>
   (users s sourceID \<noteq> None \<and> users s targetID \<noteq> None \<longrightarrow>
      status (fst (makeFriendsHandler (Some (sourceID, targetID)) s)) = 200) \<and>
   (status (fst (makeFriendsHandler req s)) \<noteq> 200 \<longrightarrow> snd (makeFriendsHandler req s) = s)"
proof -
  have "status (fst (makeFriendsHandler req s)) \<noteq> 200 \<longrightarrow> snd (makeFriendsHandler req s) = s"
    by (simp add: makeFriendsHandler_def Let_def split: option.splits prod.splits)
  moreover have
    "(status (fst (makeFriendsHandler (Some (sourceID, targetID)) s)) = 400 \<longleftrightarrow>
        users s sourceID = None \<or> users s targetID = None) \<and>
     (users s sourceID = None \<or> users s targetID = None \<longrightarrow>
        makeFriendsHandler (Some (sourceID, targetID)) s = (Response 400 UsersNotFound, s)) \<and>
     (users s sourceID \<noteq> None \<and> users s targetID \<noteq> None \<longrightarrow>
        status (fst (makeFriendsHandler (Some (sourceID, targetID)) s)) = 200)"
    by (cases "users s sourceID"; cases "users s targetID")
      (simp_all add: makeFriendsHandler_def Let_def)
  ultimately show ?thesis by simp
qed

text \<open>
  In \<open>twoUsers\<close> there is no user 7: linking 1 and 7 fails and changes nothing, linking
  1 and 2 succeeds.
\<close>

theorem makeFriends_fails_iff_absent_witness:
  "users twoUsers ''7'' = None \<and>
   makeFriendsHandler (Some (''1'', ''7'')) twoUsers = (Response 400 UsersNotFound, twoUsers) \<and>
   status (fst (makeFriendsHandler (Some (''1'', ''2'')) twoUsers)) = 200"
  using makeFriends_fails_iff_absent [of "''1''" "''7''" twoUsers None]
    makeFriends_fails_iff_absent [of "''1''" "''2''" twoUsers None]
  by (simp add: twoUsers_eq)

text \<open>
  C5, as the program has it. Take any run from the initial store, whatever requests lie
  between its creates. With fewer than \<open>2^63\<close> creates that decode, the IDs announced
  are the decimal representations of 1, 2, 3, ... in this order, one for each such
  create. With at most \<open>2^64\<close> of them, the IDs announced are pairwise distinct: no ID
  comes back, not even that of a deleted user.
\<close>

theorem createUser_ids_sequential:
  "(length (filter creates rs) < 2 ^ 63 \<longrightarrow>
      createdIDs (fst (serve rs initial)) =
        map (\<lambda>k. Itoa (int k)) [1..<Suc (length (filter creates rs))]) \<and>
   (length (filter creates rs) \<le> 2 ^ 64 \<longrightarrow>
      distinct (createdIDs (fst (serve rs initial))))"
proof -
  let ?n = "length (filter creates rs)"
  let ?ids = "createdIDs (fst (serve rs initial))"
  let ?seq = "map (\<lambda>k. Itoa (int k)) [1..<Suc ?n]"
  from serve_counter [of rs initial]
  have len: "length ?ids = ?n"
    and nth: "\<And>j. j < ?n \<Longrightarrow> ?ids ! j = Itoa (sint (1 + word_of_nat j :: 64 word))"
    by (simp_all add: initial_def)
  have "?ids = ?seq" if small: "?n < 2 ^ 63"
  proof -
    have "?ids ! j = ?seq ! j" if "j < ?n" for j
    proof -
      from that small have "Suc j < 2 ^ 63" by simp
      with nth [OF that] have "?ids ! j = Itoa (int (Suc j))"
        by (simp only: counter_from_one)
      moreover from that have "?seq ! j = Itoa (int (Suc j))"
        by (simp del: upt_Suc)
      ultimately show ?thesis by simp
    qed
    moreover from len have "length ?ids = length ?seq"
      by (simp del: upt_Suc)
    ultimately show ?thesis
      by (intro nth_equalityI) (simp_all only: len)
  qed
  moreover have "distinct ?ids" if bound: "?n \<le> 2 ^ 64"
  proof -
    have "j = k" if "j < ?n" "k < ?n" "?ids ! j = ?ids ! k" for j k
    proof -
      from that bound have "j < 2 ^ 64" "k < 2 ^ 64" by simp_all
      moreover from that nth
      have "Itoa (sint (1 + word_of_nat j :: 64 word)) = Itoa (sint (1 + word_of_nat k :: 64 word))"
        by simp
      ultimately show ?thesis by (rule counter_inj)
    qed
    with len show ?thesis
      by (auto simp: distinct_conv_nth)
  qed
  ultimately show ?thesis by blast
qed

text \<open>
  Two users are created, the second is deleted, a create with a malformed body is
  refused, and the next create gets the ID 3, not the freed ID 2.
\<close>

theorem createUser_ids_sequential_witness:
  "length (filter creates
      [PostCreate (Some alice), PostCreate (Some bob), DeleteUser (Some ''2''),
       PostCreate None, PostCreate (Some bob)]) < 2 ^ 63 \<and>
   createdIDs (fst (serve
      [PostCreate (Some alice), PostCreate (Some bob), DeleteUser (Some ''2''),
       PostCreate None, PostCreate (Some bob)] initial)) = [''1'', ''2'', ''3''] \<and>
   distinct (createdIDs (fst (serve
      [PostCreate (Some alice), PostCreate (Some bob), DeleteUser (Some ''2''),
       PostCreate None, PostCreate (Some bob)] initial)))"
proof -
  let ?rs = "[PostCreate (Some alice), PostCreate (Some bob), DeleteUser (Some ''2''),
       PostCreate None, PostCreate (Some bob)]"
  have n: "length (filter creates ?rs) = 3"
    by simp
  then have small: "length (filter creates ?rs) < 2 ^ 63"
    and bound: "length (filter creates ?rs) \<le> 2 ^ 64"
    by simp_all
  have three: "map (\<lambda>k. Itoa (int k)) [1..<Suc 3] = [''1'', ''2'', ''3'']"
    by (simp add: upt_rec Itoa_small)
  from createUser_ids_sequential [of ?rs] small
  have "createdIDs (fst (serve ?rs initial)) =
      map (\<lambda>k. Itoa (int k)) [1..<Suc (length (filter creates ?rs))]"
    by blast
  then have ids: "createdIDs (fst (serve ?rs initial)) = [''1'', ''2'', ''3'']"
    by (simp only: n three)
  from createUser_ids_sequential [of ?rs] bound
  have "distinct (createdIDs (fst (serve ?rs initial)))"
    by blast
  with small ids show ?thesis
    by (intro conjI)
qed

text \<open>
  C5 as it is stated, for every sequence of operations, fails at both bounds: the
  counter is a 64-bit \<open>int\<close>. In the run of \<open>2^63\<close> creates, each followed by the
  deletion of the user created, the create before the last one announces
  9223372036854775807, the largest value of the counter, and the last one announces
  -9223372036854775808: the IDs stop increasing and stop being positive. In the run of
  \<open>2^64 + 1\<close> such pairs the last create announces 1, the ID of the first. The map is
  empty after each pair, and so at the end of both runs.
\<close>

theorem createUser_ids_wrap_around:
  "createdIDs (fst (serve (churn 9223372036854775808) initial)) ! 9223372036854775806 =
     ''9223372036854775807'' \<and>
   createdIDs (fst (serve (churn 9223372036854775808) initial)) ! 9223372036854775807 =
     ''-9223372036854775808'' \<and>
   users (snd (serve (churn 9223372036854775808) initial)) = Map.empty \<and>
   createdIDs (fst (serve (churn 18446744073709551617) initial)) ! 0 = ''1'' \<and>
   createdIDs (fst (serve (churn 18446744073709551617) initial)) ! 18446744073709551616 = ''1'' \<and>
   users (snd (serve (churn 18446744073709551617) initial)) = Map.empty"
proof -
  have nth: "createdIDs (fst (serve (churn n) initial)) ! j =
      Itoa (sint (1 + word_of_nat j :: 64 word))" if "j < n" for j n
    using serve_counter [of "churn n" initial] that
    by (simp add: creates_churn initial_def)
  have a: "Itoa (sint (1 + word_of_nat 9223372036854775806 :: 64 word)) = ''9223372036854775807''"
    by (simp add: Itoa_def formatDec.simps digit_def)
  have b: "Itoa (sint (1 + word_of_nat 9223372036854775807 :: 64 word)) = ''-9223372036854775808''"
    by (simp add: Itoa_def formatDec.simps digit_def)
  have c: "Itoa (sint (1 + word_of_nat 0 :: 64 word)) = ''1''"
    by (simp add: Itoa_small)
  have d: "Itoa (sint (1 + word_of_nat 18446744073709551616 :: 64 word)) = ''1''"
    by (simp add: Itoa_small)
  from nth [of 9223372036854775806 9223372036854775808]
    nth [of 9223372036854775807 9223372036854775808]
    nth [of 0 18446744073709551617]
    nth [of 18446744073709551616 18446744073709551617]
  show ?thesis
    by (simp only: a b c d serve_churn) simp
qed

text \<open>
  C6. \<open>getAllUsersHandler\<close> answers with status 404 exactly when the map is empty; a
  response with status 200 never carries the empty map; on a map that is not empty, and
  when the encoder writes without an error, the response is 200 with the whole map. The
  store stays as it is.
\<close>

theorem getAllUsers_notFound_iff_empty:
  "(status (fst (getAllUsersHandler encoded s)) = 404 \<longleftrightarrow> users s = Map.empty) \<and>
   (users s = Map.empty \<longrightarrow> getAllUsersHandler encoded s = (Response 404 UserListEmpty, s)) \<and>
   (status (fst (getAllUsersHandler encoded s)) = 200 \<longrightarrow>
      body (fst (getAllUsersHandler encoded s)) \<noteq> UsersJSON Map.empty) \<and>
   (users s \<noteq> Map.empty \<and> encoded \<longrightarrow>
      getAllUsersHandler encoded s = (Response 200 (UsersJSON (users s)), s))"
  by (simp add: getAllUsersHandler_def)

text \<open>
  The initial store gives 404, the store with two users gives both of them.
\<close>

theorem getAllUsers_notFound_iff_empty_witness:
  "getAllUsersHandler True initial = (Response 404 UserListEmpty, initial) \<and>
   getAllUsersHandler True twoUsers =
     (Response 200 (UsersJSON [''1'' \<mapsto> alice, ''2'' \<mapsto> bob]), twoUsers)"
proof -
  have "users initial = Map.empty"
    by (simp add: initial_def)
  moreover have "users twoUsers = [''1'' \<mapsto> alice, ''2'' \<mapsto> bob]"
    by (simp add: twoUsers_eq)
  moreover from this have "users twoUsers \<noteq> Map.empty"
    by simp
  ultimately show ?thesis
    using getAllUsers_notFound_iff_empty [of True initial]
      getAllUsers_notFound_iff_empty [of True twoUsers]
    by simp
qed

text \<open>
  C7. \<open>getUserFriendsHandler\<close> answers with status 400 exactly when \<open>userID\<close> is not
  in the store. When it is, then for every friend list of that user (and when the encoder
  writes without an error) the response is 200 with the records of the friend IDs that
  are in the store, in the order of the friend list; the other friend IDs are left out.
\<close>

theorem getUserFriends_skips_unresolved:
  "(status (fst (getUserFriendsHandler userID encoded s)) = 400 \<longleftrightarrow> users s userID = None) \<and>
   (users s userID = None \<longrightarrow>
      getUserFriendsHandler userID encoded s = (Response 400 UserNotFound, s)) \<and>
   (users s userID = Some user \<and> encoded \<longrightarrow>
      getUserFriendsHandler userID encoded s =
        (Response 200
           (FriendsJSON (map (\<lambda>friendID. the (users s friendID))
              (filter (\<lambda>friendID. users s friendID \<noteq> None) (Friends user)))), s))"
  by (cases "users s userID")
    (simp_all add: getUserFriendsHandler_def friendsLoop_acc List.map_filter_def comp_def)

text \<open>
  In \<open>stale\<close> user 1 still lists the deleted user 2: asking for the friends of 2 fails,
  asking for the friends of 1 succeeds with no record. In \<open>oneSided\<close> user 2 exists and
  its record is the answer.
\<close>

theorem getUserFriends_skips_unresolved_witness:
  "users stale ''2'' = None \<and>
   getUserFriendsHandler ''2'' True stale = (Response 400 UserNotFound, stale) \<and>
   map_option Friends (users stale ''1'') = Some [''2''] \<and>
   getUserFriendsHandler ''1'' True stale = (Response 200 (FriendsJSON []), stale) \<and>
   getUserFriendsHandler ''1'' True oneSided = (Response 200 (FriendsJSON [bob]), oneSided)"
  using getUserFriends_skips_unresolved [of "''2''" True stale carol]
    getUserFriends_skips_unresolved [of "''1''" True stale carol]
    getUserFriends_skips_unresolved [of "''1''" True oneSided carol]
  by (simp add: stale_eq oneSided_eq carol_def)

text \<open>
  C8. One scan of a friend list removes the first occurrence of \<open>targetID\<close> and nothing
  else: the entries before it and all entries after it, further occurrences of
  \<open>targetID\<close> among them, stay in their order; a list without \<open>targetID\<close> stays as it
  is; the number of occurrences goes down by one (if there is any). Deleting \<open>targetID\<close>
  scans the list of another user \<open>friendID\<close> once for each occurrence of \<open>friendID\<close> in
  the friend list of the deleted user, and changes nothing else of that user.
\<close>

theorem cascade_removes_first_occurrence_per_scan:
  "(targetID \<notin> set pre \<longrightarrow>
      removeTarget targetID (pre @ targetID # post) 0 = pre @ post) \<and>
   (targetID \<notin> set fs \<longrightarrow> removeTarget targetID fs 0 = fs) \<and>
   count_list (removeTarget targetID fs 0) targetID = count_list fs targetID - 1 \<and>
   (users s targetID = Some targetUser \<and> friendID \<noteq> targetID \<and>
    users s friendID = Some friend \<longrightarrow>
      users (snd (deleteUserHandler (Some targetID) s)) friendID =
        Some (friend\<lparr>Friends :=
          ((\<lambda>fs. removeTarget targetID fs 0) ^^ count_list (Friends targetUser) friendID)
            (Friends friend)\<rparr>))"
  by (simp add: funpow_removeTarget deleteUserHandler_def cascade_lookup)
    (simp add: removeTarget_remove1 remove1_append count_remove1 remove1_idem)

text \<open>
  In \<open>relinked\<close> user 1 lists user 2 twice and user 2 lists user 1 once. Deleting
  user 2 scans the list of user 1 once, and one entry 2 remains in it.
\<close>

theorem cascade_removes_first_occurrence_per_scan_witness:
  "map_option Friends (users relinked ''1'') = Some [''2'', ''2''] \<and>
   map_option Friends (users relinked ''2'') = Some [''1''] \<and>
   map_option Friends (users (snd (deleteUserHandler (Some ''2'') relinked)) ''1'') = Some [''2'']"
proof -
  let ?b = "bob\<lparr>Friends := [''1'']\<rparr>" and ?c = "carol\<lparr>Friends := [''2'', ''2'']\<rparr>"
  have h: "users relinked ''2'' = Some ?b \<and> ''1'' \<noteq> ''2'' \<and> users relinked ''1'' = Some ?c"
    by (simp add: relinked_eq)
  have scan: "removeTarget ''2'' [''2'', ''2''] 0 = [''2'']"
    using cascade_removes_first_occurrence_per_scan [of "''2''" "[]" "[''2'']"]
    by simp
  from cascade_removes_first_occurrence_per_scan
    [of "''2''" "[]" "[]" "[]" relinked ?b "''1''" ?c] h
  have "users (snd (deleteUserHandler (Some ''2'') relinked)) ''1'' =
      Some (?c\<lparr>Friends := removeTarget ''2'' [''2'', ''2''] 0\<rparr>)"
    by simp
  with h scan show ?thesis
    by simp
qed

text \<open>
  C9. A create with a body that decodes always succeeds: it stores the decoded record
  as it is under the new ID, advances the counter, and leaves every other entry of the
  map as it was, whether or not the IDs of the friend list are users. So the initial
  store is symmetric, and the store after creating \<open>carol\<close>, whose friend list names a
  user 2 that does not exist, is not.
\<close>

theorem createUser_stores_friends_verbatim:
  "createUserHandler (Some newUser) s =
     (Response 201 (UserIDText (Itoa (sint (nextUserID s)))),
      \<lparr>users = (users s)(Itoa (sint (nextUserID s)) \<mapsto> newUser),
       nextUserID = nextUserID s + 1\<rparr>) \<and>
   symmetric initial \<and>
   \<not> symmetric (snd (createUserHandler (Some carol) initial))"
proof -
  have "symmetric initial"
    by (simp add: symmetric_def listedBack_def initial_def)
  moreover have "\<not> listedBack (snd (createUserHandler (Some carol) initial)) ''1''"
    by (simp add: createUserHandler_def generateUserID_def initial_def Itoa_small
        listedBack_def carol_def)
  then have "\<not> symmetric (snd (createUserHandler (Some carol) initial))"
    unfolding symmetric_def by blast
  ultimately show ?thesis
    by (simp add: createUserHandler_def generateUserID_def)
qed

text \<open>
  Creating \<open>carol\<close> in the initial store: she is user 1, her friend list is stored as
  sent, and there is no user 2.
\<close>

theorem createUser_stores_friends_verbatim_witness:
  "createUserHandler (Some carol) initial =
     (Response 201 (UserIDText ''1''), \<lparr>users = [''1'' \<mapsto> carol], nextUserID = 2\<rparr>) \<and>
   users initial ''2'' = None \<and> Friends carol = [''2'']"
  using createUser_stores_friends_verbatim [of carol initial]
  by (simp add: initial_def Itoa_small carol_def)

text \<open>
  C10. Linking an existing user \<open>A\<close> with itself succeeds. Both appends start from the
  record read before the call and the second write replaces the first, so the friend
  list of \<open>A\<close> gets one new entry \<open>A\<close> at its end, not two; nothing else changes.
\<close>

theorem makeFriends_self_appends_once:
  assumes "users s A = Some ua"
  shows "makeFriendsHandler (Some (A, A)) s =
           (Response 200 (NowFriends (Name ua) (Name ua)),
            s\<lparr>users := (users s)(A \<mapsto> ua\<lparr>Friends := Friends ua @ [A]\<rparr>)\<rparr>) \<and>
         count_list (Friends ua @ [A]) A = count_list (Friends ua) A + 1"
  using assms by (simp add: makeFriendsHandler_def Let_def)

text \<open>
  In \<open>twoUsers\<close>, linking user 1 with itself leaves it with the friend list \<open>[1]\<close>.
\<close>

theorem makeFriends_self_appends_once_witness:
  "makeFriendsHandler (Some (''1'', ''1'')) twoUsers =
     (Response 200 (NowFriends ''Alice'' ''Alice''),
      \<lparr>users = [''1'' \<mapsto> alice\<lparr>Friends := [''1'']\<rparr>, ''2'' \<mapsto> bob], nextUserID = 3\<rparr>)"
proof -
  have "users twoUsers ''1'' = Some alice"
    by (simp add: twoUsers_eq)
  from makeFriends_self_appends_once [OF this] show ?thesis
    by (simp add: twoUsers_eq alice_def fun_upd_twist)
qed

end
